theory Spec2Isabelle
  imports Complex_Main
begin

section \<open>Python slices and array shapes\<close>

text \<open>
  Shapes, centres and slice bounds are Python integers (\<open>int\<close>); \<open>//\<close> and \<open>%\<close> with a
  positive divisor are \<open>div\<close> and \<open>mod\<close> on \<open>int\<close>. A slice bound that is negative counts
  from the end of the axis, and every bound is cut to the range of the axis.
\<close>

definition slice_bound :: "int \<Rightarrow> nat \<Rightarrow> nat" where
  "slice_bound i n = (if i < 0 then nat (i + int n) else min (nat i) n)"

definition slice_len :: "int \<Rightarrow> int \<Rightarrow> nat \<Rightarrow> nat" where
  "slice_len start stop n = slice_bound stop n - slice_bound start n"

definition py_slice :: "int \<Rightarrow> int \<Rightarrow> 'a list \<Rightarrow> 'a list" where
  "py_slice start stop xs =
     take (slice_len start stop (length xs)) (drop (slice_bound start (length xs)) xs)"

text \<open>
  An array is an image (rank 2: its rows, with the size of axis 1 kept beside them so that
  an image without rows still has a shape), a volume (rank 3: its planes, with the sizes of
  axes 1 and 2) or an array of another rank, of which only the shape is kept.
\<close>

datatype 'a ndarray =
    Image nat "'a list list"
  | Volume nat nat "'a list list list"
  | Other "nat list"

fun shape :: "'a ndarray \<Rightarrow> nat list" where
  "shape (Image nx img) = [length img, nx]"
| "shape (Volume ny nx vol) = [length vol, ny, nx]"
| "shape (Other s) = s"

definition ndim :: "'a ndarray \<Rightarrow> nat" where
  "ndim a = length (shape a)"

fun wf_array :: "'a ndarray \<Rightarrow> bool" where
  "wf_array (Image nx img) = list_all (\<lambda>row. length row = nx) img"
| "wf_array (Volume ny nx vol) =
     list_all (\<lambda>plane. length plane = ny \<and> list_all (\<lambda>row. length row = nx) plane) vol"
| "wf_array (Other s) = (length s \<noteq> 2 \<and> length s \<noteq> 3)"

datatype error = ValueError

text \<open>A grid given as a list of rows has the shape \<open>(R, C)\<close>.\<close>

definition rect :: "nat \<Rightarrow> nat \<Rightarrow> 'a list list \<Rightarrow> bool" where
  "rect R C A = (length A = R \<and> list_all (\<lambda>row. length row = C) A)"

section \<open>Cropping and padding (image/\_edges.py)\<close>

definition crop_to_shape :: "'a ndarray \<Rightarrow> int list \<Rightarrow> error + 'a ndarray" where
  "crop_to_shape image_or_volume shp =
     (if ndim image_or_volume \<notin> {2, 3} then Inl ValueError
      else if length shp \<noteq> length (shape image_or_volume) then Inl ValueError
      else case (image_or_volume, shp) of
        (Image Nx img, [h, w]) \<Rightarrow>
          (let Ny = length img;
               xc = int Nx div 2; yc = int Ny div 2
           in Inr (Image (slice_len (xc - w div 2) (xc + w div 2 + w mod 2) Nx)
                 (map (py_slice (xc - w div 2) (xc + w div 2 + w mod 2))
                    (py_slice (yc - h div 2) (yc + h div 2 + h mod 2) img))))
      | (Volume Ny Nx vol, [d, h, w]) \<Rightarrow>
          (let Nz = length vol;
               xc = int Nx div 2; yc = int Ny div 2; zc = int Nz div 2
           in Inr (Volume (slice_len (yc - h div 2) (yc + h div 2 + h mod 2) Ny)
                 (slice_len (xc - w div 2) (xc + w div 2 + w mod 2) Nx)
                 (map (\<lambda>plane. map (py_slice (xc - w div 2) (xc + w div 2 + w mod 2))
                         (py_slice (yc - h div 2) (yc + h div 2 + h mod 2) plane))
                    (py_slice (zc - d div 2) (zc + d div 2 + d mod 2) vol))))
      | _ \<Rightarrow> Inl ValueError)"

text \<open>
  \<open>crop_to_shape_with_center\<close> returns the cropped image together with the flag that
  says whether \<open>warnings.warn\<close> was called. The source binds \<open>xn\<close> from \<open>yc\<close>, \<open>h\<close> and
  \<open>yn\<close> from \<open>xc\<close>, \<open>w\<close>; the model keeps that.
\<close>

definition crop_to_shape_with_center ::
  "'a ndarray \<Rightarrow> int list \<Rightarrow> int \<times> int \<Rightarrow> error + ('a ndarray \<times> bool)" where
  "crop_to_shape_with_center img shp center =
     (case img of
        Image n1 rows \<Rightarrow>
          (case shp of
             [h, w] \<Rightarrow>
               (let xc = fst center; yc = snd center;
                    x0 = max (xc - w div 2) 0; y0 = max (yc - h div 2) 0;
                    xn = min (yc + h div 2 + h mod 2) (int n1 - 1);
                    yn = min (xc + w div 2 + w mod 2) (int (length rows) - 1);
                    cropped = Image (slice_len x0 xn n1)
                                (map (py_slice x0 xn) (py_slice y0 yn rows))
                in Inr (cropped, map int (shape cropped) \<noteq> shp))
           | _ \<Rightarrow> Inl ValueError)
      | _ \<Rightarrow> Inl ValueError)"

text \<open>
  \<open>jnp.pad\<close> in its default mode \<open>constant\<close>; the keyword arguments are its fill value
  \<open>constant_values\<close>. A negative pad width is refused with a \<open>ValueError\<close>.
\<close>

definition pad1 :: "'a \<Rightarrow> int \<times> int \<Rightarrow> 'a list \<Rightarrow> 'a list" where
  "pad1 c p xs = replicate (nat (fst p)) c @ xs @ replicate (nat (snd p)) c"

definition padded_len :: "int \<times> int \<Rightarrow> nat \<Rightarrow> nat" where
  "padded_len p n = nat (fst p) + n + nat (snd p)"

definition jnp_pad :: "'a \<Rightarrow> 'a ndarray \<Rightarrow> (int \<times> int) list \<Rightarrow> error + 'a ndarray" where
  "jnp_pad c a padding =
     (if list_ex (\<lambda>p. fst p < 0 \<or> snd p < 0) padding then Inl ValueError
      else case (a, padding) of
        (Image Nx img, [py, px]) \<Rightarrow>
          Inr (Image (padded_len px Nx)
                 (pad1 (replicate (padded_len px Nx) c) py (map (pad1 c px) img)))
      | (Volume Ny Nx vol, [pz, py, px]) \<Rightarrow>
          Inr (Volume (padded_len py Ny) (padded_len px Nx)
                 (pad1 (replicate (padded_len py Ny) (replicate (padded_len px Nx) c)) pz
                    (map (\<lambda>plane. pad1 (replicate (padded_len px Nx) c) py
                                     (map (pad1 c px) plane)) vol)))
      | _ \<Rightarrow> Inl ValueError)"

definition pad_to_shape :: "'a \<Rightarrow> 'a ndarray \<Rightarrow> int list \<Rightarrow> error + 'a ndarray" where
  "pad_to_shape c image_or_volume shp =
     (if ndim image_or_volume \<notin> {2, 3} then Inl ValueError
      else if length shp \<noteq> length (shape image_or_volume) then Inl ValueError
      else case (shape image_or_volume, shp) of
        ([n0, n1], [s0, s1]) \<Rightarrow>
          (let y_pad = s0 - int n0; x_pad = s1 - int n1
           in jnp_pad c image_or_volume
                [(y_pad div 2, y_pad div 2 + y_pad mod 2),
                 (x_pad div 2, x_pad div 2 + x_pad mod 2)])
      | ([n0, n1, n2], [s0, s1, s2]) \<Rightarrow>
          (let z_pad = s0 - int n0; y_pad = s1 - int n1; x_pad = s2 - int n2
           in jnp_pad c image_or_volume
                [(z_pad div 2, z_pad div 2 + z_pad mod 2),
                 (y_pad div 2, y_pad div 2 + y_pad mod 2),
                 (x_pad div 2, x_pad div 2 + x_pad mod 2)])
      | _ \<Rightarrow> Inl ValueError)"

definition resize_with_crop_or_pad :: "'a \<Rightarrow> 'a ndarray \<Rightarrow> int list \<Rightarrow> error + 'a ndarray" where
  "resize_with_crop_or_pad c img shp =
     (if ndim img \<noteq> 2 \<or> length shp \<noteq> 2 then Inl ValueError
      else case (shape img, shp) of
        ([n1, n2], [M1, M2]) \<Rightarrow>
          (let N1 = int n1; N2 = int n2 in
           if N1 \<ge> M1 \<and> N2 \<ge> M2 then crop_to_shape img shp
           else if N1 \<le> M1 \<and> N2 \<le> M2 then pad_to_shape c img shp
           else if N1 \<le> M1 \<and> N2 \<ge> M2 then
             (case crop_to_shape img [N1, M2] of
                Inl e \<Rightarrow> Inl e
              | Inr img' \<Rightarrow> pad_to_shape c img' [M1, M2])
           else
             (case crop_to_shape img [M1, N2] of
                Inl e \<Rightarrow> Inl e
              | Inr img' \<Rightarrow> pad_to_shape c img' [M1, M2]))
      | _ \<Rightarrow> Inl ValueError)"

section \<open>Masks (image/operators/\_masks.py)\<close>

text \<open>
  Coordinates and mask weights are real numbers. \<open>jnp.where\<close> on scalars is \<open>if\<close>; where one
  of its operands is an array, the result is that array's shape, every entry chosen by the
  scalar condition.
\<close>

definition linalg_norm :: "real list \<Rightarrow> real" where
  "linalg_norm v = sqrt (sum_list (map (\<lambda>c. \<bar>c\<bar> ^ 2) v))"

text \<open>
  The inner function of \<open>_compute_circular_or_spherical_mask\<close>. Its conditions read the
  argument \<open>radial_coordinate\<close>; its cosine reads \<open>radial_coordinate_grid\<close>, the whole grid
  of the enclosing function, so the value at one coordinate is an array of the grid's shape.
\<close>

definition circular_compute_mask_at_coordinate ::
  "real list list \<Rightarrow> real \<Rightarrow> real \<Rightarrow> real \<Rightarrow> real list list" where
  "circular_compute_mask_at_coordinate radial_coordinate_grid radius rolloff_width radial_coordinate =
     map (map (\<lambda>grid_value.
        if radial_coordinate \<le> radius then 1
        else if radial_coordinate > radius + rolloff_width then 0
        else 0.5 * (1 + cos (pi * (grid_value - radius) / rolloff_width))))
       radial_coordinate_grid"

text \<open>The rank-2 branch: \<open>jax.vmap (jax.vmap compute_mask_at_coordinate)\<close> over the grid.\<close>

definition compute_circular_or_spherical_mask ::
  "real list list list \<Rightarrow> real \<Rightarrow> real \<Rightarrow> real list list list list" where
  "compute_circular_or_spherical_mask coordinate_grid radius rolloff_width =
     (let radial_coordinate_grid = map (map linalg_norm) coordinate_grid
      in map (map (circular_compute_mask_at_coordinate radial_coordinate_grid radius rolloff_width))
           radial_coordinate_grid)"

definition is_in_square_fn :: "real \<Rightarrow> real \<Rightarrow> real \<Rightarrow> bool" where
  "is_in_square_fn x y s = (\<bar>x\<bar> \<le> s / 2 \<and> \<bar>y\<bar> \<le> s / 2)"

definition is_in_edge_fn :: "real \<Rightarrow> real \<Rightarrow> real \<Rightarrow> bool" where
  "is_in_edge_fn x_or_y s w = (\<bar>x_or_y\<bar> > s / 2 \<and> \<bar>x_or_y\<bar> < s / 2 + w)"

definition compute_edge_fn :: "real \<Rightarrow> real \<Rightarrow> real \<Rightarrow> real" where
  "compute_edge_fn x_or_y s w = 0.5 * (1 + cos (pi * (x_or_y - s / 2) / w))"

definition square_compute_mask_at_coordinate :: "real \<Rightarrow> real \<Rightarrow> real \<times> real \<Rightarrow> real" where
  "square_compute_mask_at_coordinate side_length rolloff_width coordinate =
     (let x = fst coordinate; y = snd coordinate;
          is_in_unmasked_square = is_in_square_fn x y side_length;
          is_in_unmasked_plus_soft_edge_square =
            is_in_square_fn x y (side_length + 2 * rolloff_width);
          is_in_edge_x = is_in_edge_fn x side_length rolloff_width;
          is_in_edge_y = is_in_edge_fn y side_length rolloff_width;
          edge_x = compute_edge_fn x side_length rolloff_width;
          edge_y = compute_edge_fn y side_length rolloff_width
      in if is_in_unmasked_square then 1
         else if is_in_unmasked_plus_soft_edge_square then
           (if is_in_edge_x \<and> is_in_edge_y then edge_x * edge_y
            else if is_in_edge_x then edge_x else edge_y)
         else 0)"

definition compute_square_mask :: "(real \<times> real) list list \<Rightarrow> real \<Rightarrow> real \<Rightarrow> real list list" where
  "compute_square_mask coordinate_grid side_length rolloff_width =
     map (map (square_compute_mask_at_coordinate side_length rolloff_width)) coordinate_grid"

section \<open>Projection with a non-uniform FFT (simulator/\_integrators/\_nufft\_project.py)\<close>

text \<open>
  \<open>jnp.fft.ifftshift\<close> rolls every axis by \<open>-(n // 2)\<close>: entry \<open>i\<close> of the result is entry
  \<open>(i + n // 2) mod n\<close> of the argument.
\<close>

definition ifftshift1 :: "'a list \<Rightarrow> 'a list" where
  "ifftshift1 xs = rotate (length xs div 2) xs"

definition ifftshift :: "'a list list \<Rightarrow> 'a list list" where
  "ifftshift rows = ifftshift1 (map ifftshift1 rows)"

text \<open>
  \<open>projection.at[:, -1].set(0)\<close> and \<open>projection.at[i, :].set(0)\<close>; an index outside the
  array is dropped by \<open>.at[...].set\<close>.
\<close>

definition set_last_column :: "'a \<Rightarrow> 'a list list \<Rightarrow> 'a list list" where
  "set_last_column v rows = map (\<lambda>row. row[length row - 1 := v]) rows"

definition set_row :: "nat \<Rightarrow> 'a \<Rightarrow> 'a list list \<Rightarrow> 'a list list" where
  "set_row i v rows = (if i < length rows then rows[i := map (\<lambda>_. v) (rows ! i)] else rows)"

text \<open>
  The library function \<open>jax_finufft.nufft1\<close> is a parameter: it takes the shape, the
  weights, the two coordinate lists, \<open>eps\<close> and \<open>iflag\<close>, and returns the full spectrum.
\<close>

type_synonym nufft1_fn =
  "nat \<times> nat \<Rightarrow> complex list \<Rightarrow> real list \<Rightarrow> real list \<Rightarrow> real \<Rightarrow> int \<Rightarrow> complex list list"

definition project_with_nufft ::
  "nufft1_fn \<Rightarrow> real list \<Rightarrow> real list list \<Rightarrow> nat \<times> nat \<Rightarrow> real \<Rightarrow> complex list list" where
  "project_with_nufft nufft1 weights coordinate_list shp eps =
     (let weights_c = map complex_of_real weights;
          coordinates_xy = map (take 2) coordinate_list;
          M1 = fst shp; M2 = snd shp;
          image_size = [real M1, real M2];
          coordinates_periodic =
            map (\<lambda>row. map2 (\<lambda>c s. 2 * pi * c / s) row image_size) coordinates_xy;
          x = map (\<lambda>row. row ! 0) coordinates_periodic;
          y = map (\<lambda>row. row ! 1) coordinates_periodic;
          projection = nufft1 shp weights_c y x eps (- 1);
          projection = map (take (M2 div 2 + 1)) (ifftshift projection);
          projection = (if M2 mod 2 = 0 then set_last_column 0 projection else projection);
          projection = (if M1 mod 2 = 0 then set_row (M1 div 2) 0 projection else projection)
      in projection)"

text \<open>
  The full spectrum inside \<open>project_with_nufft\<close>: the value of its call of \<open>nufft1\<close>.
\<close>

definition spectrum ::
  "nufft1_fn \<Rightarrow> real list \<Rightarrow> real list list \<Rightarrow> nat \<times> nat \<Rightarrow> real \<Rightarrow> complex list list" where
  "spectrum nufft1 weights coordinate_list shp eps =
     nufft1 shp (map complex_of_real weights)
       (map (\<lambda>row. row ! 1)
          (map (\<lambda>row. map2 (\<lambda>c s. 2 * pi * c / s) row [real (fst shp), real (snd shp)])
             (map (take 2) coordinate_list)))
       (map (\<lambda>row. row ! 0)
          (map (\<lambda>row. map2 (\<lambda>c s. 2 * pi * c / s) row [real (fst shp), real (snd shp)])
             (map (take 2) coordinate_list)))
       eps (- 1)"

text \<open>
  The exact type-1 sum that \<open>nufft1\<close> approximates to the precision \<open>eps\<close>, with the
  zero frequency in the middle of each axis: an instance of the parameter.
\<close>

definition modes :: "nat \<Rightarrow> int list" where
  "modes n = map (\<lambda>i. int i - int (n div 2)) [0..<n]"

definition direct_nufft1 :: nufft1_fn where
  "direct_nufft1 shp c xs ys eps iflag =
     map (\<lambda>k1. map (\<lambda>k2.
            sum_list (map (\<lambda>(cj, xj, yj).
               cj * cis (of_int iflag * (of_int k1 * xj + of_int k2 * yj)))
              (zip c (zip xs ys))))
          (modes (snd shp)))
       (modes (fst shp))"

text \<open>
  The potentials of \<open>simulator/_potential.py\<close> and the \<open>ImageConfig\<close> are not among the
  sources; of the potentials the fields that \<open>NufftProject.__call__\<close> reads are kept, and
  the configuration gives \<open>padded_shape\<close>, \<open>pixel_size\<close> and \<open>rescale_to_pixel_size\<close>.
\<close>

datatype potential =
    RealVoxelGridPotential "real list list list" "real list list list list" real
  | RealVoxelCloudPotential "real list" "real list list" real
  | OtherPotential real

fun voxel_size :: "potential \<Rightarrow> real" where
  "voxel_size (RealVoxelGridPotential g cs v) = v"
| "voxel_size (RealVoxelCloudPotential w cs v) = v"
| "voxel_size (OtherPotential v) = v"

record image_config =
  padded_shape :: "nat \<times> nat"
  pixel_size :: real
  rescale_to_pixel_size :: "complex list list \<Rightarrow> real \<Rightarrow> bool \<Rightarrow> complex list list"

definition NufftProject_call ::
  "nufft1_fn \<Rightarrow> image_config \<Rightarrow> real \<Rightarrow> potential \<Rightarrow> error + complex list list" where
  "NufftProject_call nufft1 config eps potential =
     (case (case potential of
              RealVoxelGridPotential real_voxel_grid wrapped_coordinate_grid v \<Rightarrow>
                Inr (project_with_nufft nufft1 (concat (concat real_voxel_grid))
                       (concat (concat wrapped_coordinate_grid)) (padded_shape config) eps)
            | RealVoxelCloudPotential voxel_weights wrapped_coordinate_list v \<Rightarrow>
                Inr (project_with_nufft nufft1 voxel_weights wrapped_coordinate_list
                       (padded_shape config) eps)
            | OtherPotential v \<Rightarrow> Inl ValueError) of
        Inl e \<Rightarrow> Inl e
      | Inr fourier_projection \<Rightarrow>
          Inr (rescale_to_pixel_size config fourier_projection (voxel_size potential) False))"

section \<open>The view step of the image pipeline (simulator/image.py)\<close>

text \<open>
  The transforms \<open>fftn\<close> and \<open>irfftn\<close>, the crop of the scattering configuration, the filters
  and the masks are fields of the pipeline. The argument of \<open>view\<close> is an image in real space
  (\<open>real=True\<close>) or in Fourier space (\<open>real=False\<close>).
\<close>

record ('r, 'c) image_pipeline =
  filters :: "('c \<Rightarrow> 'c) list"
  masks :: "('r \<Rightarrow> 'r) list"
  crop :: "'r \<Rightarrow> 'r"
  fftn :: "'r \<Rightarrow> 'c"
  irfftn :: "'c \<Rightarrow> 'r"

datatype ('r, 'c) view_input = RealSpace 'r | FourierSpace 'c

fun apply_each :: "('a \<Rightarrow> 'a) list \<Rightarrow> 'a \<Rightarrow> 'a" where
  "apply_each [] img = img"
| "apply_each (f # fs) img = apply_each fs (f img)"

definition filter_image :: "('r, 'c) image_pipeline \<Rightarrow> 'c \<Rightarrow> 'c" where
  "filter_image self img = apply_each (filters self) img"

definition mask_image :: "('r, 'c) image_pipeline \<Rightarrow> 'r \<Rightarrow> 'r" where
  "mask_image self img = apply_each (masks self) img"

definition view :: "('r, 'c) image_pipeline \<Rightarrow> ('r, 'c) view_input \<Rightarrow> 'r" where
  "view self inp =
     (let img = (case inp of
                   RealSpace im \<Rightarrow>
                     if length (filters self) > 0
                     then irfftn self (filter_image self (fftn self im)) else im
                 | FourierSpace im \<Rightarrow> irfftn self (filter_image self im))
      in mask_image self (crop self img))"

section \<open>The independent Fourier-mode Gaussian (inference/distributions/\_gaussian\_distributions.py)\<close>

text \<open>
  Of the pipeline the distribution reads its rendering (arguments \<open>normalize\<close> and
  \<open>get_real\<close>), the padded shape and the frequency grid of its configuration. A noise
  variance is an operator from a frequency grid to a grid of reals.
\<close>

type_synonym fourier_operator = "(real \<times> real) list list \<Rightarrow> real list list"

record abstract_pipeline =
  pipeline_render :: "bool \<Rightarrow> bool \<Rightarrow> complex list list"
  config_padded_shape :: "nat \<times> nat"
  frequency_grid_in_angstroms :: "(real \<times> real) list list"

text \<open>
  Modelled from the spec: the operator \<open>Constant\<close> of \<open>image/operators\<close>, which is not among
  the sources; the default variance is a flat spectrum, the same value at every frequency.
\<close>

definition Constant :: "real \<Rightarrow> fourier_operator" where
  "Constant c freqs = map (map (\<lambda>_. c)) freqs"

record independent_fourier_gaussian =
  pipeline :: abstract_pipeline
  variance :: fourier_operator
  contrast_scale :: real

text \<open>
  \<open>a or b\<close> is \<open>b\<close> when \<open>a\<close> is \<open>None\<close> or falsy. An operator object is never falsy; the
  number \<open>0.0\<close> is.
\<close>

definition init_gaussian ::
  "abstract_pipeline \<Rightarrow> fourier_operator option \<Rightarrow> real option \<Rightarrow> independent_fourier_gaussian" where
  "init_gaussian pl var cs =
     \<lparr> pipeline = pl,
       variance = (case var of None \<Rightarrow> Constant 1.0 | Some v \<Rightarrow> v),
       contrast_scale = (case cs of None \<Rightarrow> 1.0 | Some c \<Rightarrow> if c = 0 then 1.0 else c) \<rparr>"

definition render :: "independent_fourier_gaussian \<Rightarrow> bool \<Rightarrow> complex list list" where
  "render self get_real =
     map (map (\<lambda>v. complex_of_real (contrast_scale self) * v))
       (pipeline_render (pipeline self) True get_real)"

text \<open>
  An operation between two arrays, entry by entry. Operands of one shape are covered; every
  other pair is reported as an error (the broadcasting of axes of size one is left out).
\<close>

definition elementwise ::
  "('a \<Rightarrow> 'b \<Rightarrow> 'c) \<Rightarrow> 'a list list \<Rightarrow> 'b list list \<Rightarrow> error + 'c list list" where
  "elementwise f A B =
     (if map length A = map length B then Inr (map2 (map2 f) A B) else Inl ValueError)"

definition jnp_sum :: "real list list \<Rightarrow> real" where
  "jnp_sum A = sum_list (map sum_list A)"

definition log_likelihood ::
  "independent_fourier_gaussian \<Rightarrow> complex list list \<Rightarrow> error + real" where
  "log_likelihood self observed =
     (let N_pix = real (fst (config_padded_shape (pipeline self))
                        * snd (config_padded_shape (pipeline self)));
          freqs = frequency_grid_in_angstroms (pipeline self);
          var = map (map (\<lambda>v. N_pix * v)) (variance self freqs);
          simulated = render self False
      in case elementwise (\<lambda>s ob. s - ob) simulated observed of
           Inl e \<Rightarrow> Inl e
         | Inr residuals \<Rightarrow>
            (case elementwise (\<lambda>r v. (cmod r) ^ 2 / (2 * v)) residuals var of
               Inl e \<Rightarrow> Inl e
             | Inr squared_standard_normal_per_mode \<Rightarrow>
                (case elementwise (\<lambda>sq v. (sq - ln (2 * pi * v) / 2) / N_pix)
                        squared_standard_normal_per_mode var of
                   Inl e \<Rightarrow> Inl e
                 | Inr log_likelihood_per_mode \<Rightarrow>
                     Inr (- 1.0 *
                          (sum_list (map hd (drop 1 log_likelihood_per_mode))
                           + 2 * jnp_sum (map (drop 1) log_likelihood_per_mode))))))"

text \<open>
  The specification's reading of the log-likelihood, mode by mode: the variance of a mode is
  the value the code binds to \<open>variance\<close> (the operator's value times the pixel count), a
  mode's term is the squared residual magnitude over twice the variance, minus
  \<open>log(2\<pi> variance)/2\<close>, over the pixel count, and the modes are weighted by Hermitian
  symmetry.
\<close>

definition N_pixels :: "independent_fourier_gaussian \<Rightarrow> real" where
  "N_pixels self = real (fst (config_padded_shape (pipeline self))
                         * snd (config_padded_shape (pipeline self)))"

definition mode_variance :: "independent_fourier_gaussian \<Rightarrow> nat \<Rightarrow> nat \<Rightarrow> real" where
  "mode_variance self i j =
     N_pixels self * variance self (frequency_grid_in_angstroms (pipeline self)) ! i ! j"

definition per_mode_spec ::
  "independent_fourier_gaussian \<Rightarrow> complex list list \<Rightarrow> nat \<Rightarrow> nat \<Rightarrow> real" where
  "per_mode_spec self observed i j =
     ((cmod (render self False ! i ! j - observed ! i ! j)) ^ 2 / (2 * mode_variance self i j)
        - ln (2 * pi * mode_variance self i j) / 2) / N_pixels self"

definition hermitian_weight :: "nat \<Rightarrow> nat \<Rightarrow> real" where
  "hermitian_weight i j = (if j = 0 then (if i = 0 then 0 else 1) else 2)"

definition log_likelihood_spec ::
  "independent_fourier_gaussian \<Rightarrow> complex list list \<Rightarrow> nat \<Rightarrow> nat \<Rightarrow> real" where
  "log_likelihood_spec self observed R C =
     - (\<Sum>i = 0..<R. \<Sum>j = 0..<C. hermitian_weight i j * per_mode_spec self observed i j)"

section \<open>Facts about slices and padding\<close>

lemma centre_arith:
  fixes h N :: int
  assumes "0 \<le> h" "h \<le> N"
  shows "0 \<le> N div 2 - h div 2"
    and "N div 2 + h div 2 + h mod 2 \<le> N"
    and "N div 2 + h div 2 + h mod 2 - (N div 2 - h div 2) = h"
    and "0 \<le> N div 2 + h div 2 + h mod 2"
  using assms by presburger+

lemma slice_bound_in: "0 \<le> i \<Longrightarrow> i \<le> int n \<Longrightarrow> slice_bound i n = nat i"
  unfolding slice_bound_def by (simp add: min_absorb1 nat_le_iff)

lemma slice_len_centre:
  assumes "0 \<le> h" "h \<le> int n"
  shows "slice_len (int n div 2 - h div 2) (int n div 2 + h div 2 + h mod 2) n = nat h"
    and "slice_bound (int n div 2 - h div 2) n = nat (int n div 2 - h div 2)"
proof -
  let ?a = "int n div 2 - h div 2" and ?b = "int n div 2 + h div 2 + h mod 2"
  note ar = centre_arith[OF assms]
  have a: "slice_bound ?a n = nat ?a"
    using ar(1,2,3) assms by (intro slice_bound_in) linarith+
  have b: "slice_bound ?b n = nat ?b"
    using ar(2,4) by (intro slice_bound_in)
  show "slice_bound ?a n = nat ?a" by (rule a)
  have "nat ?b - nat ?a = nat (?b - ?a)"
    by (rule nat_diff_distrib'[symmetric]) (fact ar(4), fact ar(1))
  also have "\<dots> = nat h" by (simp only: ar(3))
  finally show "slice_len ?a ?b n = nat h" unfolding slice_len_def a b .
qed

lemma py_slice_centre:
  assumes "0 \<le> h" "h \<le> int (length xs)"
  shows "py_slice (int (length xs) div 2 - h div 2) (int (length xs) div 2 + h div 2 + h mod 2) xs
         = take (nat h) (drop (nat (int (length xs) div 2 - h div 2)) xs)"
  unfolding py_slice_def using slice_len_centre[OF assms] by simp

lemma py_slice_whole:
  "py_slice (int (length xs) div 2 - int (length xs) div 2)
            (int (length xs) div 2 + int (length xs) div 2 + int (length xs) mod 2) xs = xs"
  using py_slice_centre[of "int (length xs)" xs] by simp

lemma length_pad1: "0 \<le> fst p \<Longrightarrow> 0 \<le> snd p \<Longrightarrow> length (pad1 c p xs) = padded_len p (length xs)"
  by (simp add: pad1_def padded_len_def)

lemma pad_arith:
  fixes p :: int
  assumes "0 \<le> p"
  shows "0 \<le> p div 2" and "0 \<le> p div 2 + p mod 2" and "p div 2 + (p div 2 + p mod 2) = p"
  using assms by presburger+

lemma padded_len_split:
  assumes "int n \<le> B"
  shows "padded_len ((B - int n) div 2, (B - int n) div 2 + (B - int n) mod 2) n = nat B"
proof -
  let ?p = "B - int n"
  have p: "0 \<le> ?p" using assms by simp
  note ar = pad_arith[OF p]
  have "int (nat (?p div 2) + n + nat (?p div 2 + ?p mod 2)) = B"
    using ar by simp
  then show ?thesis unfolding padded_len_def fst_conv snd_conv by linarith
qed

lemma crop_pad1:
  assumes "int (length ys) \<le> B" "even (length ys) \<or> odd B"
  shows "py_slice (B div 2 - int (length ys) div 2)
           (B div 2 + int (length ys) div 2 + int (length ys) mod 2)
           (pad1 c ((B - int (length ys)) div 2,
                    (B - int (length ys)) div 2 + (B - int (length ys)) mod 2) ys) = ys"
proof -
  let ?n = "int (length ys)"
  let ?p = "((B - ?n) div 2, (B - ?n) div 2 + (B - ?n) mod 2)"
  have p: "0 \<le> B - ?n" using assms by simp
  have len: "length (pad1 c ?p ys) = nat B"
    using pad_arith[OF p] padded_len_split[OF assms(1)] by (simp add: length_pad1)
  have lo: "B div 2 - ?n div 2 = (B - ?n) div 2"
    using assms by presburger
  have B: "int (length (pad1 c ?p ys)) = B" using len assms(1) by simp
  have "py_slice (int (length (pad1 c ?p ys)) div 2 - ?n div 2)
           (int (length (pad1 c ?p ys)) div 2 + ?n div 2 + ?n mod 2) (pad1 c ?p ys)
        = take (nat ?n) (drop (nat (int (length (pad1 c ?p ys)) div 2 - ?n div 2)) (pad1 c ?p ys))"
    by (rule py_slice_centre) (use assms B in simp_all)
  then show ?thesis unfolding B using lo by (simp add: pad1_def)
qed

lemma jnp_pad_image:
  assumes "0 \<le> fst py" "0 \<le> snd py" "0 \<le> fst px" "0 \<le> snd px"
  shows "jnp_pad c (Image Nx img) [py, px] =
           Inr (Image (padded_len px Nx)
                  (pad1 (replicate (padded_len px Nx) c) py (map (pad1 c px) img)))"
  using assms unfolding jnp_pad_def by simp

lemma pad_to_shape_image:
  assumes "int (length img) \<le> B1" "int Nx \<le> B2"
  shows "pad_to_shape c (Image Nx img) [B1, B2] =
           Inr (Image (nat B2)
                  (pad1 (replicate (nat B2) c)
                     ((B1 - int (length img)) div 2,
                      (B1 - int (length img)) div 2 + (B1 - int (length img)) mod 2)
                     (map (pad1 c ((B2 - int Nx) div 2,
                                   (B2 - int Nx) div 2 + (B2 - int Nx) mod 2)) img)))"
proof -
  have p1: "0 \<le> B1 - int (length img)" and p2: "0 \<le> B2 - int Nx" using assms by simp_all
  show ?thesis
    unfolding pad_to_shape_def ndim_def
    using pad_arith[OF p1] pad_arith[OF p2] padded_len_split[OF assms(2)]
    by (simp add: jnp_pad_image Let_def)
qed

lemma crop_to_shape_image:
  "crop_to_shape (Image Nx img) [h, w] =
     Inr (Image (slice_len (int Nx div 2 - w div 2) (int Nx div 2 + w div 2 + w mod 2) Nx)
            (map (py_slice (int Nx div 2 - w div 2) (int Nx div 2 + w div 2 + w mod 2))
               (py_slice (int (length img) div 2 - h div 2)
                  (int (length img) div 2 + h div 2 + h mod 2) img)))"
  unfolding crop_to_shape_def ndim_def by (simp add: Let_def)

lemma crop_pad_image:
  assumes wf: "wf_array (Image Nx img)"
    and le: "int (length img) \<le> B1" "int Nx \<le> B2"
    and par: "even (length img) \<or> odd B1" "even Nx \<or> odd B2"
  shows "(case pad_to_shape c (Image Nx img) [B1, B2] of
            Inl e \<Rightarrow> Inl e
          | Inr p \<Rightarrow> crop_to_shape p (map int (shape (Image Nx img)))) = Inr (Image Nx img)"
proof -
  let ?py = "((B1 - int (length img)) div 2,
              (B1 - int (length img)) div 2 + (B1 - int (length img)) mod 2)"
  let ?px = "((B2 - int Nx) div 2, (B2 - int Nx) div 2 + (B2 - int Nx) mod 2)"
  let ?rows = "map (pad1 c ?px) img"
  let ?padded = "pad1 (replicate (nat B2) c) ?py ?rows"
  have B1: "0 \<le> B1" and B2: "0 \<le> B2" using le by linarith+
  have p1: "0 \<le> B1 - int (length img)" using le by simp
  have len: "int (length ?padded) = B1"
    using pad_arith[OF p1] padded_len_split[OF le(1)] B1
    by (simp add: length_pad1 del: length_map) (simp add: padded_len_def)
  have rows: "py_slice (B1 div 2 - int (length img) div 2)
                (B1 div 2 + int (length img) div 2 + int (length img) mod 2) ?padded = ?rows"
    using crop_pad1[of ?rows B1 "replicate (nat B2) c"] le(1) par(1) by simp
  have cols: "map (py_slice (B2 div 2 - int Nx div 2) (B2 div 2 + int Nx div 2 + int Nx mod 2)) ?rows
              = img"
  proof -
    have "\<And>row. row \<in> set img \<Longrightarrow>
            py_slice (B2 div 2 - int Nx div 2) (B2 div 2 + int Nx div 2 + int Nx mod 2)
              (pad1 c ?px row) = row"
    proof -
      fix row assume "row \<in> set img"
      then have l: "length row = Nx" using wf by (simp add: list_all_iff)
      show "py_slice (B2 div 2 - int Nx div 2) (B2 div 2 + int Nx div 2 + int Nx mod 2)
              (pad1 c ?px row) = row"
        using crop_pad1[of row B2 c] le(2) par(2) unfolding l by simp
    qed
    then show ?thesis by (simp add: map_idI)
  qed
  have w: "slice_len (B2 div 2 - int Nx div 2) (B2 div 2 + int Nx div 2 + int Nx mod 2) (nat B2) = Nx"
    using slice_len_centre(1)[of "int Nx" "nat B2"] le(2) B2 by simp
  show ?thesis
    unfolding pad_to_shape_image[OF le] sum.case shape.simps list.map crop_to_shape_image
    using len rows cols w B2 by simp
qed


lemma pad1_zero: "pad1 c (0, 0) xs = xs"
  by (simp add: pad1_def)

lemma pad1_zero_map: "map (pad1 c (0, 0)) xss = xss"
  by (rule map_idI) (simp add: pad1_def)

lemma centre_room:
  assumes "0 \<le> h" "h \<le> int n"
  shows "nat h \<le> n - nat (int n div 2 - h div 2)"
  using centre_arith[OF assms] by linarith

lemma crop_inside:
  assumes wf: "wf_array (Image Nx img)"
    and h: "0 \<le> h" "h \<le> int (length img)" and w: "0 \<le> w" "w \<le> int Nx"
  shows "crop_to_shape (Image Nx img) [h, w] =
           Inr (Image (nat w)
                  (map (\<lambda>row. take (nat w) (drop (nat (int Nx div 2 - w div 2)) row))
                     (take (nat h) (drop (nat (int (length img) div 2 - h div 2)) img))))"
proof -
  have cols: "py_slice (int Nx div 2 - w div 2) (int Nx div 2 + w div 2 + w mod 2) row
              = take (nat w) (drop (nat (int Nx div 2 - w div 2)) row)"
    if "row \<in> set (take (nat h) (drop (nat (int (length img) div 2 - h div 2)) img))" for row
  proof -
    from that have "row \<in> set img" by (meson in_set_dropD in_set_takeD)
    then have "length row = Nx" using wf by (simp add: list_all_iff)
    then show ?thesis using py_slice_centre[of w row] w by simp
  qed
  show ?thesis
    unfolding crop_to_shape_image py_slice_centre[OF h] slice_len_centre(1)[OF w]
    using cols by simp
qed

lemma take_drop_pad_rows:
  "map f (pad1 r p rows) = pad1 (f r) p (map f rows)"
  by (simp add: pad1_def)

section \<open>Cropping a padded image\<close>

text \<open>
  C5 as the specification states it: for every square image with odd dimensions and every
  strictly larger target shape, cropping the padded image back to the image's shape gives the
  image. This fails when the target size is even: the padding puts its extra unit on the high
  side, while the crop is taken around index \<open>B div 2\<close>, one place further up. A
  \<open>3 \<times> 3\<close> image padded to \<open>4 \<times> 4\<close> and cropped again has lost its first
  row and column.
\<close>

theorem crop_pad_even_target_counterexample:
  "(case pad_to_shape 0 (Image 3 [[1, 2, 3], [4, 5, 6], [7, 8, 9::int]]) [4, 4] of
      Inl e \<Rightarrow> Inl e
    | Inr p \<Rightarrow> crop_to_shape p (map int (shape (Image 3 [[1, 2, 3], [4, 5, 6], [7, 8, 9::int]]))))
   = Inr (Image 3 [[5, 6, 0], [8, 9, 0], [0, 0, 0]])
   \<and> Image 3 [[5, 6, 0], [8, 9, 0], [0, 0, 0]] \<noteq> Image 3 [[1, 2, 3], [4, 5, 6], [7, 8, 9::int]]"
  by (simp add: pad_to_shape_def crop_to_shape_def jnp_pad_def ndim_def pad1_def padded_len_def
      py_slice_def slice_len_def slice_bound_def Let_def eval_nat_numeral)

text \<open>
  C5, amended: for every square image with odd dimensions and every strictly larger target
  shape whose two sizes are odd as well, \<open>crop_to_shape (pad_to_shape img bigger) img.shape\<close>
  is \<open>img\<close> exactly.
\<close>

theorem crop_pad_roundtrip_odd_target:
  assumes "wf_array (Image N img)" and "length img = N" and "odd N"
    and "int N < B1" and "int N < B2" and "odd B1" and "odd B2"
  shows "(case pad_to_shape c (Image N img) [B1, B2] of
            Inl e \<Rightarrow> Inl e
          | Inr p \<Rightarrow> crop_to_shape p (map int (shape (Image N img)))) = Inr (Image N img)"
  using assms by (intro crop_pad_image) simp_all

theorem crop_pad_roundtrip_odd_target_witness:
  "wf_array (Image 3 [[1, 2, 3], [4, 5, 6], [7, 8, 9::int]])
   \<and> length [[1, 2, 3], [4, 5, 6], [7, 8, 9::int]] = 3 \<and> odd (3::nat)
   \<and> int 3 < 5 \<and> int 3 < 7 \<and> odd (5::int) \<and> odd (7::int)
   \<and> (case pad_to_shape 0 (Image 3 [[1, 2, 3], [4, 5, 6], [7, 8, 9::int]]) [5, 7] of
          Inl e \<Rightarrow> Inl e
        | Inr p \<Rightarrow> crop_to_shape p (map int (shape (Image 3 [[1, 2, 3], [4, 5, 6], [7, 8, 9::int]]))))
       = Inr (Image 3 [[1, 2, 3], [4, 5, 6], [7, 8, 9]])"
  using crop_pad_roundtrip_odd_target [of 3 "[[1, 2, 3], [4, 5, 6], [7, 8, 9::int]]" 5 7 0]
  by simp

section \<open>Resizing with a mixed request\<close>

text \<open>
  C4: on a mixed request (one axis strictly grows, the other strictly shrinks)
  \<open>resize_with_crop_or_pad\<close> crops the shrinking axis first and pads the growing axis
  afterwards. The result is the one that padding first and cropping afterwards gives, so it
  holds no pixel that the crop applied after the pad would have removed; and it has the
  requested shape.
\<close>

theorem resize_mixed_crops_before_pad:
  assumes wf: "wf_array (Image N2 img)" and N1: "length img = N1"
    and mixed: "(int N1 < M1 \<and> 0 \<le> M2 \<and> M2 < int N2) \<or> (0 \<le> M1 \<and> M1 < int N1 \<and> int N2 < M2)"
  shows "resize_with_crop_or_pad c (Image N2 img) [M1, M2]
         = (case crop_to_shape (Image N2 img) [min (int N1) M1, min (int N2) M2] of
              Inl e \<Rightarrow> Inl e
            | Inr cropped \<Rightarrow> pad_to_shape c cropped [M1, M2])
       \<and> resize_with_crop_or_pad c (Image N2 img) [M1, M2]
         = (case pad_to_shape c (Image N2 img) [max (int N1) M1, max (int N2) M2] of
              Inl e \<Rightarrow> Inl e
            | Inr padded \<Rightarrow> crop_to_shape padded [M1, M2])
       \<and> map_sum id shape (resize_with_crop_or_pad c (Image N2 img) [M1, M2])
         = Inr [nat M1, nat M2]"
proof -
  have order: "resize_with_crop_or_pad c (Image N2 img) [M1, M2]
         = (case crop_to_shape (Image N2 img) [min (int N1) M1, min (int N2) M2] of
              Inl e \<Rightarrow> Inl e
            | Inr cropped \<Rightarrow> pad_to_shape c cropped [M1, M2])"
    using mixed N1 unfolding resize_with_crop_or_pad_def ndim_def
    by (auto simp: Let_def min_def)
  have rows: "\<And>row. row \<in> set img \<Longrightarrow> length row = N2"
    using wf by (simp add: list_all_iff)
  from mixed have same: "(case crop_to_shape (Image N2 img) [min (int N1) M1, min (int N2) M2] of
              Inl e \<Rightarrow> Inl e
            | Inr cropped \<Rightarrow> pad_to_shape c cropped [M1, M2])
        = (case pad_to_shape c (Image N2 img) [max (int N1) M1, max (int N2) M2] of
              Inl e \<Rightarrow> Inl e
            | Inr padded \<Rightarrow> crop_to_shape padded [M1, M2])
        \<and> map_sum id shape
            (case crop_to_shape (Image N2 img) [min (int N1) M1, min (int N2) M2] of
              Inl e \<Rightarrow> Inl e
            | Inr cropped \<Rightarrow> pad_to_shape c cropped [M1, M2]) = Inr [nat M1, nat M2]"
  proof
    assume A: "int N1 < M1 \<and> 0 \<le> M2 \<and> M2 < int N2"
    let ?py = "((M1 - int N1) div 2, (M1 - int N1) div 2 + (M1 - int N1) mod 2)"
    let ?cut = "\<lambda>row. take (nat M2) (drop (nat (int N2 div 2 - M2 div 2)) row)"
    have mm: "min (int N1) M1 = int N1" "min (int N2) M2 = M2"
             "max (int N1) M1 = M1" "max (int N2) M2 = int N2" using A by simp_all
    have crop1: "crop_to_shape (Image N2 img) [int N1, M2] = Inr (Image (nat M2) (map ?cut img))"
      using crop_inside[OF wf, of "int N1" M2] A N1 by simp
    have pad1': "pad_to_shape c (Image (nat M2) (map ?cut img)) [M1, M2]
                = Inr (Image (nat M2) (pad1 (replicate (nat M2) c) ?py (map ?cut img)))"
      using pad_to_shape_image[of "map ?cut img" M1 "nat M2" M2 c] A N1
      by (simp add: pad1_zero pad1_zero_map comp_def)
    let ?padded = "pad1 (replicate N2 c) ?py img"
    have pad2: "pad_to_shape c (Image N2 img) [M1, int N2] = Inr (Image N2 ?padded)"
      using pad_to_shape_image[of img M1 N2 "int N2" c] A N1 by (simp add: pad1_zero pad1_zero_map comp_def)
    have wfp: "wf_array (Image N2 ?padded)"
      using rows by (auto simp: pad1_def list_all_iff)
    have lenp: "int (length ?padded) = M1"
      using pad_arith[of "M1 - int N1"] padded_len_split[of N1 M1] A N1
      by (simp add: length_pad1) 
    have crop2: "crop_to_shape (Image N2 ?padded) [M1, M2] = Inr (Image (nat M2) (map ?cut ?padded))"
      using crop_inside[OF wfp, of M1 M2] A lenp by simp
    have eq: "map ?cut ?padded = pad1 (replicate (nat M2) c) ?py (map ?cut img)"
      using centre_room[of M2 N2] A by (simp add: take_drop_pad_rows min_absorb1)
    have "length (pad1 (replicate (nat M2) c) ?py (map ?cut img)) = nat M1"
      using pad_arith[of "M1 - int N1"] padded_len_split[of N1 M1] A N1
      by (simp add: length_pad1)
    with eq show ?thesis unfolding mm crop1 pad2 sum.case pad1' crop2 by simp
  next
    assume B: "0 \<le> M1 \<and> M1 < int N1 \<and> int N2 < M2"
    let ?px = "((M2 - int N2) div 2, (M2 - int N2) div 2 + (M2 - int N2) mod 2)"
    let ?cut = "\<lambda>rs. take (nat M1) (drop (nat (int N1 div 2 - M1 div 2)) rs)"
    have mm: "min (int N1) M1 = M1" "min (int N2) M2 = int N2"
             "max (int N1) M1 = int N1" "max (int N2) M2 = M2" using B by simp_all
    have crop1: "crop_to_shape (Image N2 img) [M1, int N2] = Inr (Image N2 (?cut img))"
    proof -
      have "map (\<lambda>row. take N2 row) (?cut img) = ?cut img"
        by (rule map_idI) (use rows in \<open>auto dest!: in_set_takeD in_set_dropD\<close>)
      then show ?thesis using crop_inside[OF wf, of M1 "int N2"] B N1 by simp
    qed
    have len1: "int (length (?cut img)) = M1"
      using centre_room[of M1 N1] B N1 by (simp add: min_absorb2)
    have pad1': "pad_to_shape c (Image N2 (?cut img)) [M1, M2]
                = Inr (Image (nat M2) (map (pad1 c ?px) (?cut img)))"
      using pad_to_shape_image[of "?cut img" M1 N2 M2 c] B len1
      by (simp add: pad1_zero pad1_zero_map comp_def del: length_take length_drop)
    let ?padded = "map (pad1 c ?px) img"
    have pad2: "pad_to_shape c (Image N2 img) [int N1, M2] = Inr (Image (nat M2) ?padded)"
      using pad_to_shape_image[of img "int N1" N2 M2 c] B N1 by (simp add: pad1_zero pad1_zero_map comp_def)
    have wfp: "wf_array (Image (nat M2) ?padded)"
      using rows pad_arith[of "M2 - int N2"] padded_len_split[of N2 M2] B
      by (simp add: list_all_iff length_pad1)
    have crop2: "crop_to_shape (Image (nat M2) ?padded) [M1, M2]
                 = Inr (Image (nat M2) (?cut ?padded))"
    proof -
      have "map (\<lambda>row. take (nat M2) row) (?cut ?padded) = ?cut ?padded"
        by (rule map_idI) (use wfp in \<open>auto simp: list_all_iff dest!: in_set_takeD in_set_dropD\<close>)
      then show ?thesis using crop_inside[OF wfp, of M1 M2] B N1 by simp
    qed
    have eq: "?cut ?padded = map (pad1 c ?px) (?cut img)"
      by (simp add: take_map drop_map)
    have "length (map (pad1 c ?px) (?cut img)) = nat M1"
      using len1 by (simp del: length_take length_drop)
    with eq show ?thesis unfolding mm crop1 pad2 sum.case pad1' crop2
      by (simp del: length_take length_drop length_map)
  qed
  show ?thesis unfolding order using same by blast
qed

theorem resize_mixed_crops_before_pad_witness:
  "wf_array (Image 3 [[1, 2, 3], [4, 5, 6], [7, 8, 9::int]])
   \<and> length [[1, 2, 3], [4, 5, 6], [7, 8, 9::int]] = 3
   \<and> ((int 3 < 5 \<and> (0::int) \<le> 2 \<and> 2 < int 3) \<or> ((0::int) \<le> 5 \<and> 5 < int 3 \<and> int 3 < 2))
   \<and> resize_with_crop_or_pad 0 (Image 3 [[1, 2, 3], [4, 5, 6], [7, 8, 9::int]]) [5, 2]
       = (case crop_to_shape (Image 3 [[1, 2, 3], [4, 5, 6], [7, 8, 9::int]])
                 [min (int 3) 5, min (int 3) 2] of
            Inl e \<Rightarrow> Inl e
          | Inr cropped \<Rightarrow> pad_to_shape 0 cropped [5, 2])
   \<and> resize_with_crop_or_pad 0 (Image 3 [[1, 2, 3], [4, 5, 6], [7, 8, 9::int]]) [5, 2]
       = (case pad_to_shape 0 (Image 3 [[1, 2, 3], [4, 5, 6], [7, 8, 9::int]])
                 [max (int 3) 5, max (int 3) 2] of
            Inl e \<Rightarrow> Inl e
          | Inr padded \<Rightarrow> crop_to_shape padded [5, 2])
   \<and> map_sum id shape
         (resize_with_crop_or_pad 0 (Image 3 [[1, 2, 3], [4, 5, 6], [7, 8, 9::int]]) [5, 2])
       = Inr [nat 5, nat 2]"
proof -
  have wf: "wf_array (Image 3 [[1, 2, 3], [4, 5, 6], [7, 8, 9::int]])" by simp
  have len: "length [[1, 2, 3], [4, 5, 6], [7, 8, 9::int]] = 3" by simp
  have mixed: "(int 3 < 5 \<and> (0::int) \<le> 2 \<and> 2 < int 3) \<or> ((0::int) \<le> 5 \<and> 5 < int 3 \<and> int 3 < 2)"
    by simp
  show ?thesis
    using wf len mixed resize_mixed_crops_before_pad [OF wf len mixed, of 0] by blast
qed

section \<open>Cropping around a given centre\<close>

text \<open>
  C8: for every image, requested shape and centre, \<open>crop_to_shape_with_center\<close> returns
  (it raises nothing); the start of each axis's slice is clamped from below at \<open>0\<close> and
  its stop from above at \<open>dim - 1\<close>; the warning is emitted exactly when the shape of
  the crop is not the requested shape, and the clipped crop is returned all the same. For a
  centre inside the image and a non-negative shape all four bounds lie in \<open>[0, dim - 1]\<close>.
\<close>

theorem crop_with_center_clamps_and_warns:
  "(let x0 = max (xc - w div 2) 0; y0 = max (yc - h div 2) 0;
        xn = min (yc + h div 2 + h mod 2) (int n1 - 1);
        yn = min (xc + w div 2 + w mod 2) (int (length rows) - 1);
        cropped = Image (slice_len x0 xn n1) (map (py_slice x0 xn) (py_slice y0 yn rows))
    in crop_to_shape_with_center (Image n1 rows) [h, w] (xc, yc)
         = Inr (cropped, map int (shape cropped) \<noteq> [h, w])
       \<and> 0 \<le> y0 \<and> yn \<le> int (length rows) - 1 \<and> 0 \<le> x0 \<and> xn \<le> int n1 - 1
       \<and> (0 \<le> yc \<and> yc < int (length rows) \<and> 0 \<le> xc \<and> xc < int n1 \<and> 0 \<le> h \<and> 0 \<le> w
            \<longrightarrow> y0 \<le> int (length rows) - 1 \<and> 0 \<le> yn \<and> x0 \<le> int n1 - 1 \<and> 0 \<le> xn))"
proof -
  have "0 \<le> h \<Longrightarrow> 0 \<le> h div 2 \<and> 0 \<le> h div 2 + h mod 2" for h :: int by presburger
  then show ?thesis
    unfolding crop_to_shape_with_center_def Let_def
    by (auto simp: max_def min_def)
qed

theorem crop_with_center_clamps_and_warns_witness:
  "((0::int) \<le> 2 \<and> (2::int) < int (length [[1, 2, 3], [4, 5, 6], [7, 8, 9::int]])
      \<and> (0::int) \<le> 2 \<and> (2::int) < int 3 \<and> (0::int) \<le> 2 \<and> (0::int) \<le> 2)
   \<and> crop_to_shape_with_center (Image 3 [[1, 2, 3], [4, 5, 6], [7, 8, 9::int]]) [2, 2] (2, 2)
       = Inr (Image 1 [[5]], True)"
  using crop_with_center_clamps_and_warns
          [where xc = 2 and yc = 2 and h = 2 and w = 2 and ?n1.0 = 3
             and rows = "[[1, 2, 3], [4, 5, 6], [7, 8, 9::int]]"]
  by (simp add: Let_def py_slice_def slice_len_def slice_bound_def)

section \<open>Masks\<close>

text \<open>
  C6: the circular mask is to give every point a single weight: \<open>1\<close> up to the radius,
  \<open>0\<close> beyond radius plus rolloff, and the half-cosine taper of the point's own radial
  distance in between. The code computes the taper from the whole grid of radial distances
  instead of the point's distance, so the value at a point is an array of the grid's shape.
  On the grid of the two points at distances \<open>0\<close> and \<open>3/2\<close>, with radius \<open>1\<close> and
  rolloff \<open>1\<close>, the point at distance \<open>3/2\<close> gets the array \<open>[[0, 1/2]]\<close> where the
  claim gives the number \<open>1/2\<close>.
\<close>

theorem circular_mask_value_is_grid_shaped:
  "compute_circular_or_spherical_mask [[[0, 0], [3/2, 0]]] 1 1 = [[[[1, 1]], [[0, 1/2]]]]"
proof -
  have n0: "linalg_norm [0, 0] = 0" by (simp add: linalg_norm_def)
  have "linalg_norm [3/2, 0] = sqrt ((3/2)^2)" by (simp add: linalg_norm_def)
  then have n1: "linalg_norm [3/2, 0] = 3/2" by (simp add: real_sqrt_abs)
  have c: "cos (pi * (3 / 2 - 1) / 1) = 0" by simp
  show ?thesis
    unfolding compute_circular_or_spherical_mask_def Let_def
    by (simp add: n0 n1 circular_compute_mask_at_coordinate_def)
qed

text \<open>
  C7: at a coordinate \<open>(x, y)\<close> of the grid that lies inside the soft band of both axes the
  square mask is the product of the two per-axis tapers; inside the core square on both axes
  it is \<open>1\<close>; outside the padded square it is \<open>0\<close> (the rolloff width being a width,
  not negative).
\<close>

theorem square_mask_regions:
  assumes "i < length coordinate_grid" and "j < length (coordinate_grid ! i)"
    and "coordinate_grid ! i ! j = (x, y)"
  shows "(s / 2 < \<bar>x\<bar> \<and> \<bar>x\<bar> < s / 2 + w \<and> s / 2 < \<bar>y\<bar> \<and> \<bar>y\<bar> < s / 2 + w \<longrightarrow>
            compute_square_mask coordinate_grid s w ! i ! j
            = (0.5 * (1 + cos (pi * (x - s / 2) / w))) * (0.5 * (1 + cos (pi * (y - s / 2) / w))))
       \<and> (\<bar>x\<bar> \<le> s / 2 \<and> \<bar>y\<bar> \<le> s / 2 \<longrightarrow> compute_square_mask coordinate_grid s w ! i ! j = 1)
       \<and> (0 \<le> w \<and> \<not> (\<bar>x\<bar> \<le> s / 2 + w \<and> \<bar>y\<bar> \<le> s / 2 + w) \<longrightarrow>
            compute_square_mask coordinate_grid s w ! i ! j = 0)"
proof -
  have v: "compute_square_mask coordinate_grid s w ! i ! j
           = square_compute_mask_at_coordinate s w (x, y)"
    using assms by (simp add: compute_square_mask_def)
  have pad: "(s + 2 * w) / 2 = s / 2 + w" by (simp add: field_simps)
  show ?thesis
    unfolding v square_compute_mask_at_coordinate_def Let_def is_in_square_fn_def
      is_in_edge_fn_def compute_edge_fn_def pad fst_conv snd_conv
    by auto
qed

theorem square_mask_regions_witness:
  "compute_square_mask [[(2, 2)]] 2 2 ! 0 ! 0 = 1 / 4
   \<and> compute_square_mask [[(1 / 2, - 1)]] 2 2 ! 0 ! 0 = 1
   \<and> compute_square_mask [[(4, 0)]] 2 2 ! 0 ! 0 = 0"
  using square_mask_regions [of 0 "[[(2, 2)]]" 0 2 2 2 2]
    square_mask_regions [of 0 "[[(1 / 2, - 1)]]" 0 "1 / 2" "- 1" 2 2]
    square_mask_regions [of 0 "[[(4, 0)]]" 0 4 0 2 2]
  by simp

section \<open>The projection\<close>

lemma rect_iff: "rect R C A = (length A = R \<and> (\<forall>row \<in> set A. length row = C))"
  by (simp add: rect_def list_all_iff)

lemma rect_nth: "rect R C A \<Longrightarrow> i < R \<Longrightarrow> length (A ! i) = C"
  by (simp add: rect_iff)

lemma rect_length: "rect R C A \<Longrightarrow> length A = R"
  by (simp add: rect_iff)

lemma rectI: "length A = R \<Longrightarrow> (\<And>i. i < R \<Longrightarrow> length (A ! i) = C) \<Longrightarrow> rect R C A"
  unfolding rect_iff by (metis in_set_conv_nth)

lemma ifftshift1_nth:
  "i < length xs \<Longrightarrow> ifftshift1 xs ! i = xs ! ((i + length xs div 2) mod length xs)"
  by (simp add: ifftshift1_def nth_rotate add.commute)

lemma rect_ifftshift: "rect R C A \<Longrightarrow> rect R C (ifftshift A)"
  by (auto simp: rect_iff ifftshift_def ifftshift1_def)

lemma ifftshift_nth:
  assumes "rect R C A" "i < R" "j < C"
  shows "ifftshift A ! i ! j = A ! ((i + R div 2) mod R) ! ((j + C div 2) mod C)"
proof -
  have R: "length A = R" using assms(1) by (rule rect_length)
  have k: "(i + R div 2) mod R < R" using assms(2) by simp
  have "ifftshift A ! i = map ifftshift1 A ! ((i + R div 2) mod R)"
    using assms(2) R by (simp add: ifftshift_def ifftshift1_nth)
  also have "\<dots> = ifftshift1 (A ! ((i + R div 2) mod R))" using k R by simp
  finally show ?thesis
    using rect_nth[OF assms(1) k] assms(3) by (simp add: ifftshift1_nth)
qed

lemma rect_take: "rect R C A \<Longrightarrow> k \<le> C \<Longrightarrow> rect R k (map (take k) A)"
  by (auto simp: rect_iff)

lemma rect_set_last_column: "rect R C A \<Longrightarrow> rect R C (set_last_column v A)"
  by (auto simp: rect_iff set_last_column_def)

lemma set_last_column_nth:
  "rect R C A \<Longrightarrow> i < R \<Longrightarrow> j < C \<Longrightarrow>
     set_last_column v A ! i ! j = (if j = C - 1 then v else A ! i ! j)"
  by (simp add: rect_iff set_last_column_def)

lemma rect_set_row: "rect R C A \<Longrightarrow> rect R C (set_row k v A)"
  unfolding rect_iff set_row_def by (auto dest!: set_update_subset_insert[THEN subsetD])

lemma set_row_nth:
  "rect R C A \<Longrightarrow> i < R \<Longrightarrow> j < C \<Longrightarrow>
     set_row k v A ! i ! j = (if i = k then v else A ! i ! j)"
  by (auto simp: rect_iff set_row_def)

lemma postprocess_entries:
  assumes F: "rect M1 M2 F" and M2: "0 < M2"
  shows "rect M1 (M2 div 2 + 1)
           ((if M1 mod 2 = 0 then set_row (M1 div 2) 0 else (\<lambda>P. P))
              ((if M2 mod 2 = 0 then set_last_column 0 else (\<lambda>P. P))
                 (map (take (M2 div 2 + 1)) (ifftshift F))))"
    and "i < M1 \<Longrightarrow> j \<le> M2 div 2 \<Longrightarrow>
         ((if M1 mod 2 = 0 then set_row (M1 div 2) 0 else (\<lambda>P. P))
              ((if M2 mod 2 = 0 then set_last_column 0 else (\<lambda>P. P))
                 (map (take (M2 div 2 + 1)) (ifftshift F)))) ! i ! j
         = (if (even M1 \<and> i = M1 div 2) \<or> (even M2 \<and> j = M2 div 2) then (0::complex)
            else F ! ((i + M1 div 2) mod M1) ! ((j + M2 div 2) mod M2))"
proof -
  let ?k = "M2 div 2 + 1"
  define P0 where "P0 = map (take ?k) (ifftshift F)"
  define P1 where "P1 = (if M2 mod 2 = 0 then set_last_column 0 else (\<lambda>P. P)) P0"
  define P2 where "P2 = (if M1 mod 2 = 0 then set_row (M1 div 2) 0 else (\<lambda>P. P)) P1"
  have k: "?k \<le> M2" using M2 by presburger
  have r0: "rect M1 ?k P0" unfolding P0_def using rect_take[OF rect_ifftshift[OF F] k] .
  have r1: "rect M1 ?k P1" unfolding P1_def using r0 by (simp add: rect_set_last_column)
  have r2: "rect M1 ?k P2" unfolding P2_def using r1 by (simp add: rect_set_row)
  show "rect M1 ?k ((if M1 mod 2 = 0 then set_row (M1 div 2) 0 else (\<lambda>P. P))
              ((if M2 mod 2 = 0 then set_last_column 0 else (\<lambda>P. P))
                 (map (take (M2 div 2 + 1)) (ifftshift F))))"
    using r2 unfolding P2_def P1_def P0_def .
  assume i: "i < M1" and j: "j \<le> M2 div 2"
  then have j': "j < ?k" and j'': "j < M2" using k by simp_all
  have "length (ifftshift F) = M1" using rect_length[OF rect_ifftshift[OF F]] .
  then have e0: "P0 ! i ! j = F ! ((i + M1 div 2) mod M1) ! ((j + M2 div 2) mod M2)"
    unfolding P0_def using ifftshift_nth[OF F i j''] i j' by simp
  have e1: "P1 ! i ! j = (if even M2 \<and> j = M2 div 2 then 0 else P0 ! i ! j)"
    unfolding P1_def using set_last_column_nth[OF r0 i j', of 0]
    by (auto simp: even_iff_mod_2_eq_zero)
  have e2: "P2 ! i ! j = (if even M1 \<and> i = M1 div 2 then 0 else P1 ! i ! j)"
    unfolding P2_def using set_row_nth[OF r1 i j', of "M1 div 2" 0]
    by (auto simp: even_iff_mod_2_eq_zero)
  have "P2 ! i ! j = (if (even M1 \<and> i = M1 div 2) \<or> (even M2 \<and> j = M2 div 2) then 0
            else F ! ((i + M1 div 2) mod M1) ! ((j + M2 div 2) mod M2))"
    unfolding e2 e1 e0 by simp
  then show "((if M1 mod 2 = 0 then set_row (M1 div 2) 0 else (\<lambda>P. P))
              ((if M2 mod 2 = 0 then set_last_column 0 else (\<lambda>P. P))
                 (map (take (M2 div 2 + 1)) (ifftshift F)))) ! i ! j
         = (if (even M1 \<and> i = M1 div 2) \<or> (even M2 \<and> j = M2 div 2) then (0::complex)
            else F ! ((i + M1 div 2) mod M1) ! ((j + M2 div 2) mod M2))"
    unfolding P2_def P1_def P0_def .
qed

lemma project_with_nufft_post:
  "project_with_nufft nufft1 weights coordinate_list (M1, M2) eps =
     (if M1 mod 2 = 0 then set_row (M1 div 2) 0 else (\<lambda>P. P))
       ((if M2 mod 2 = 0 then set_last_column 0 else (\<lambda>P. P))
          (map (take (M2 div 2 + 1))
             (ifftshift (spectrum nufft1 weights coordinate_list (M1, M2) eps))))"
  unfolding project_with_nufft_def spectrum_def Let_def fst_conv snd_conv
  by (simp only: if_distrib[of "\<lambda>f. f _"] if_True if_False split: if_splits)

lemma rect_direct_nufft1: "rect (fst shp) (snd shp) (direct_nufft1 shp c xs ys eps iflag)"
  by (simp add: rect_iff direct_nufft1_def modes_def)

lemma rect_spectrum_direct:
  "rect M1 M2 (spectrum direct_nufft1 weights coordinate_list (M1, M2) eps)"
  unfolding spectrum_def using rect_direct_nufft1[of "(M1, M2)"] by simp

lemma project_with_nufft_entries:
  assumes "rect M1 M2 (spectrum nufft1 weights coordinate_list (M1, M2) eps)" and "0 < M2"
  shows "rect M1 (M2 div 2 + 1) (project_with_nufft nufft1 weights coordinate_list (M1, M2) eps)"
    and "i < M1 \<Longrightarrow> j \<le> M2 div 2 \<Longrightarrow>
         project_with_nufft nufft1 weights coordinate_list (M1, M2) eps ! i ! j
         = (if (even M1 \<and> i = M1 div 2) \<or> (even M2 \<and> j = M2 div 2) then 0
            else spectrum nufft1 weights coordinate_list (M1, M2) eps
                   ! ((i + M1 div 2) mod M1) ! ((j + M2 div 2) mod M2))"
proof -
  show "rect M1 (M2 div 2 + 1) (project_with_nufft nufft1 weights coordinate_list (M1, M2) eps)"
    unfolding project_with_nufft_post by (rule postprocess_entries(1)[OF assms])
  show "i < M1 \<Longrightarrow> j \<le> M2 div 2 \<Longrightarrow>
         project_with_nufft nufft1 weights coordinate_list (M1, M2) eps ! i ! j
         = (if (even M1 \<and> i = M1 div 2) \<or> (even M2 \<and> j = M2 div 2) then 0
            else spectrum nufft1 weights coordinate_list (M1, M2) eps
                   ! ((i + M1 div 2) mod M1) ! ((j + M2 div 2) mod M2))"
    unfolding project_with_nufft_post by (rule postprocess_entries(2)[OF assms])
qed

text \<open>
  C2: whatever the weights and coordinates, when \<open>M2\<close> is even the last column of the
  half-spectrum returned by \<open>project_with_nufft\<close> (column \<open>M2 div 2\<close>) is zero in every
  row, and when \<open>M1\<close> is even its row \<open>M1 div 2\<close> is zero in every column. The library's
  \<open>nufft1\<close> is taken to return a spectrum of the requested shape.
\<close>

theorem nyquist_bins_are_zero:
  assumes "rect M1 M2 (spectrum nufft1 weights coordinate_list (M1, M2) eps)"
    and "0 < M1" and "0 < M2"
  shows "rect M1 (M2 div 2 + 1) (project_with_nufft nufft1 weights coordinate_list (M1, M2) eps)
       \<and> (even M2 \<longrightarrow>
            (\<forall>i < M1. project_with_nufft nufft1 weights coordinate_list (M1, M2) eps
                          ! i ! (M2 div 2) = 0))
       \<and> (even M1 \<longrightarrow>
            (\<forall>j \<le> M2 div 2. project_with_nufft nufft1 weights coordinate_list (M1, M2) eps
                          ! (M1 div 2) ! j = 0))"
proof -
  have half: "M1 div 2 < M1" using assms(2) by simp
  show ?thesis
    using project_with_nufft_entries(1)[OF assms(1,3)] half
    by (simp add: project_with_nufft_entries(2)[OF assms(1,3)])
qed

theorem nyquist_bins_are_zero_witness:
  "rect 2 2 (spectrum direct_nufft1 [1] [[0, 0]] (2, 2) (1 / 1000000))
   \<and> (0::nat) < 2 \<and> even (2::nat)
   \<and> project_with_nufft direct_nufft1 [1] [[0, 0]] (2, 2) (1 / 1000000) = [[1, 0], [0, 0]]"
proof -
  have ev: "project_with_nufft direct_nufft1 [1] [[0, 0]] (2, 2) (1 / 1000000) = [[1, 0], [0, 0]]"
    by (simp add: project_with_nufft_def direct_nufft1_def modes_def ifftshift_def ifftshift1_def
        set_last_column_def set_row_def Let_def upt_rec[of 0 2] upt_rec[of 1 2] rotate_def
        eval_nat_numeral)
  show ?thesis
    using nyquist_bins_are_zero [of 2 2 direct_nufft1 "[1]" "[[0, 0]]" "1 / 1000000"]
      rect_spectrum_direct [of 2 2 "[1]" "[[0, 0]]" "1 / 1000000"] ev
    by simp
qed

text \<open>
  C3: \<open>project_with_nufft\<close> keeps the columns \<open>0 .. M2 div 2\<close> of the spectrum with the
  zero frequency shifted to the corner (the Nyquist bins apart, which are zeroed), so its
  result has the shape \<open>(M1, M2 div 2 + 1)\<close>; \<open>NufftProject\<close> on a voxel cloud returns a
  result of that shape, the rescaling to the pixel size keeping the shape. For ten points
  of weight one and a \<open>64 \<times> 64\<close> configuration of pixel size one the shape is
  \<open>(64, 33)\<close>. Every entry of the model is a complex number, so that nothing is said
  here about overflow in floating point.
\<close>

theorem half_spectrum_shape:
  assumes F: "rect M1 M2 (spectrum nufft1 weights coordinate_list (M1, M2) eps)"
    and M2: "0 < M2"
    and cfg: "padded_shape config = (M1, M2)"
    and rescale: "\<And>img v is_real. rect M1 (M2 div 2 + 1) img \<Longrightarrow>
                   rect M1 (M2 div 2 + 1) (rescale_to_pixel_size config img v is_real)"
  shows "rect M1 (M2 div 2 + 1) (project_with_nufft nufft1 weights coordinate_list (M1, M2) eps)
       \<and> (\<forall>i < M1. \<forall>j \<le> M2 div 2.
            project_with_nufft nufft1 weights coordinate_list (M1, M2) eps ! i ! j
            = (if (even M1 \<and> i = M1 div 2) \<or> (even M2 \<and> j = M2 div 2) then 0
               else ifftshift (spectrum nufft1 weights coordinate_list (M1, M2) eps) ! i ! j))
       \<and> (\<exists>out. NufftProject_call nufft1 config eps
                     (RealVoxelCloudPotential weights coordinate_list v) = Inr out
                 \<and> rect M1 (M2 div 2 + 1) out)"
proof -
  have shape: "rect M1 (M2 div 2 + 1)
                 (project_with_nufft nufft1 weights coordinate_list (M1, M2) eps)"
    by (rule project_with_nufft_entries(1)[OF F M2])
  have entries: "project_with_nufft nufft1 weights coordinate_list (M1, M2) eps ! i ! j
            = (if (even M1 \<and> i = M1 div 2) \<or> (even M2 \<and> j = M2 div 2) then 0
               else ifftshift (spectrum nufft1 weights coordinate_list (M1, M2) eps) ! i ! j)"
    if "i < M1" "j \<le> M2 div 2" for i j
  proof -
    have "j < M2" using that(2) M2 by presburger
    then show ?thesis
      unfolding project_with_nufft_entries(2)[OF F M2 that]
      using ifftshift_nth[OF F that(1)] by simp
  qed
  have "NufftProject_call nufft1 config eps (RealVoxelCloudPotential weights coordinate_list v)
        = Inr (rescale_to_pixel_size config
                 (project_with_nufft nufft1 weights coordinate_list (M1, M2) eps) v False)"
    by (simp add: NufftProject_call_def cfg)
  then show ?thesis using shape entries rescale[OF shape] by simp
qed

theorem half_spectrum_shape_witness:
  "rect 64 64 (spectrum direct_nufft1 (replicate 10 1) (map (\<lambda>k. [real k, real k, 0]) [0..<10])
                 (64, 64) (1 / 1000000))
   \<and> (0::nat) < 64
   \<and> padded_shape \<lparr> padded_shape = (64, 64), pixel_size = 1,
                       rescale_to_pixel_size = (\<lambda>img v is_real. img) \<rparr> = (64, 64)
   \<and> (\<exists>out. NufftProject_call direct_nufft1
               \<lparr> padded_shape = (64, 64), pixel_size = 1,
                 rescale_to_pixel_size = (\<lambda>img v is_real. img) \<rparr> (1 / 1000000)
               (RealVoxelCloudPotential (replicate 10 1)
                  (map (\<lambda>k. [real k, real k, 0]) [0..<10]) 1) = Inr out
           \<and> rect 64 33 out)"
  using half_spectrum_shape
          [of 64 64 direct_nufft1 "replicate 10 1" "map (\<lambda>k. [real k, real k, 0]) [0..<10]"
              "1 / 1000000"
              "\<lparr> padded_shape = (64, 64), pixel_size = 1,
                 rescale_to_pixel_size = (\<lambda>img v is_real. img) \<rparr>" 1,
           OF rect_spectrum_direct]
    rect_spectrum_direct [of 64 64 "replicate 10 1" "map (\<lambda>k. [real k, real k, 0]) [0..<10]"
              "1 / 1000000"]
  by simp

section \<open>The view step\<close>

lemma apply_each_fold: "apply_each fs x = fold (\<lambda>f img. f img) fs x"
  by (induction fs arbitrary: x) simp_all

text \<open>
  C9: \<open>view\<close> applies the filters first (in Fourier space, coming back to real space),
  then the crop, then the masks: it is the masks applied to the crop of the filtered image.
  An image given in real space goes through \<open>fftn\<close> before the filters, and is left as it
  is when there is no filter.
\<close>

theorem view_filters_then_crops_then_masks:
  "view self inp =
     fold (\<lambda>m img. m img) (masks self)
       (crop self
          (case inp of
             FourierSpace im \<Rightarrow> irfftn self (fold (\<lambda>f img. f img) (filters self) im)
           | RealSpace im \<Rightarrow>
               if filters self = [] then im
               else irfftn self (fold (\<lambda>f img. f img) (filters self) (fftn self im))))"
  unfolding view_def Let_def filter_image_def mask_image_def apply_each_fold
  by (cases inp) auto

section \<open>The Gaussian distribution\<close>

text \<open>
  C10: constructing the distribution with the contrast scale \<open>0.0\<close> stores \<open>1.0\<close>
  instead, so that \<open>render\<close> is the rendering of the pipeline itself, not the zero image;
  and a variance \<open>None\<close> becomes the constant unit variance.
\<close>

theorem zero_contrast_scale_defaults_to_one:
  "contrast_scale (init_gaussian pl var (Some 0)) = 1
   \<and> render (init_gaussian pl var (Some 0)) get_real = pipeline_render pl True get_real
   \<and> variance (init_gaussian pl None cs) = Constant 1
   \<and> Constant 1 freqs = map (map (\<lambda>_. 1)) freqs"
  by (simp add: init_gaussian_def render_def Constant_def)


lemma elementwise_rect:
  assumes "rect R C A" "rect R C B"
  shows "elementwise f A B = Inr (map2 (map2 f) A B)"
    and "rect R C (map2 (map2 f) A B)"
    and "i < R \<Longrightarrow> j < C \<Longrightarrow> map2 (map2 f) A B ! i ! j = f (A ! i ! j) (B ! i ! j)"
proof -
  have lens: "map length A = replicate R C" "map length B = replicate R C"
    using assms by (auto simp: rect_iff intro!: nth_equalityI)
  show "elementwise f A B = Inr (map2 (map2 f) A B)"
    unfolding elementwise_def lens by simp
  show "rect R C (map2 (map2 f) A B)"
    using assms by (intro rectI) (simp_all add: rect_iff)
  show "i < R \<Longrightarrow> j < C \<Longrightarrow> map2 (map2 f) A B ! i ! j = f (A ! i ! j) (B ! i ! j)"
    using assms by (simp add: rect_iff)
qed

lemma rect_map_map: "rect R C A \<Longrightarrow> rect R C (map (map f) A)"
  by (auto simp: rect_iff)

lemma nth_map_map: "rect R C A \<Longrightarrow> i < R \<Longrightarrow> j < C \<Longrightarrow> map (map f) A ! i ! j = f (A ! i ! j)"
  by (simp add: rect_iff)

lemma sum_first_column:
  assumes "rect R C g" "0 < C"
  shows "sum_list (map hd (drop 1 g)) = (\<Sum>i = 1..<R. g ! i ! 0)"
proof -
  have len: "length g = R" using assms(1) by (rule rect_length)
  have "sum_list (map hd (drop 1 g)) = (\<Sum>i = 0..<R - 1. map hd (drop 1 g) ! i)"
    by (simp add: sum_list_sum_nth len)
  also have "\<dots> = (\<Sum>i = 0..<R - 1. g ! (i + 1) ! 0)"
  proof (rule sum.cong[OF refl])
    fix i assume "i \<in> {0..<R - 1}"
    then have i: "i + 1 < R" by auto
    then have "g ! (i + 1) \<noteq> []" using rect_nth[OF assms(1) i] assms(2) by auto
    then show "map hd (drop 1 g) ! i = g ! (i + 1) ! 0"
      using i len by (simp add: hd_conv_nth)
  qed
  also have "\<dots> = (\<Sum>i = 1..<R. g ! i ! 0)"
    using sum.shift_bounds_nat_ivl[of "\<lambda>i. g ! i ! 0" 0 1 "R - 1"]
    by (cases R) simp_all
  finally show ?thesis .
qed

lemma sum_other_columns:
  assumes "rect R C g"
  shows "jnp_sum (map (drop 1) g) = (\<Sum>i = 0..<R. \<Sum>j = 1..<C. g ! i ! j)"
proof -
  have len: "length g = R" using assms by (rule rect_length)
  have "jnp_sum (map (drop 1) g) = (\<Sum>i = 0..<R. sum_list (drop 1 (g ! i)))"
    unfolding jnp_sum_def by (simp add: sum_list_sum_nth len)
  also have "\<dots> = (\<Sum>i = 0..<R. \<Sum>j = 1..<C. g ! i ! j)"
  proof (rule sum.cong[OF refl])
    fix i assume "i \<in> {0..<R}"
    then have l: "length (g ! i) = C" using rect_nth[OF assms] by simp
    have "sum_list (drop 1 (g ! i)) = (\<Sum>j = 0..<C - 1. g ! i ! (j + 1))"
      by (simp add: sum_list_sum_nth l)
    also have "\<dots> = (\<Sum>j = 1..<C. g ! i ! j)"
      using sum.shift_bounds_nat_ivl[of "\<lambda>j. g ! i ! j" 0 1 "C - 1"]
      by (cases C) simp_all
    finally show "sum_list (drop 1 (g ! i)) = (\<Sum>j = 1..<C. g ! i ! j)" .
  qed
  finally show ?thesis .
qed

lemma weighted_sum_split:
  assumes "0 < C"
  shows "(\<Sum>i = 0..<R. \<Sum>j = 0..<C. hermitian_weight i j * p i j)
         = (\<Sum>i = 1..<R. p i 0) + 2 * (\<Sum>i = 0..<R. \<Sum>j = 1..<C. p i j)"
proof -
  have inner: "(\<Sum>j = 0..<C. hermitian_weight i j * p i j)
               = (if i = 0 then 0 else p i 0) + 2 * (\<Sum>j = 1..<C. p i j)" for i
  proof -
    have "(\<Sum>j = 0..<C. hermitian_weight i j * p i j)
          = hermitian_weight i 0 * p i 0 + (\<Sum>j = Suc 0..<C. hermitian_weight i j * p i j)"
      using assms by (simp add: sum.atLeast_Suc_lessThan)
    also have "(\<Sum>j = Suc 0..<C. hermitian_weight i j * p i j) = (\<Sum>j = Suc 0..<C. 2 * p i j)"
      by (rule sum.cong) (auto simp: hermitian_weight_def)
    finally show ?thesis by (simp add: hermitian_weight_def sum_distrib_left)
  qed
  have col: "(\<Sum>i = 0..<R. if i = 0 then 0 else p i 0) = (\<Sum>i = 1..<R. p i 0)"
  proof (cases R)
    case 0 then show ?thesis by simp
  next
    case (Suc n)
    then have "(\<Sum>i = 0..<R. if i = 0 then 0 else p i 0)
               = (\<Sum>i = Suc 0..<R. if i = 0 then 0 else p i 0)"
      by (simp add: sum.atLeast_Suc_lessThan)
    also have "\<dots> = (\<Sum>i = Suc 0..<R. p i 0)" by (rule sum.cong) auto
    finally show ?thesis by simp
  qed
  show ?thesis unfolding inner sum.distrib col by (simp add: sum_distrib_left)
qed

text \<open>
  C1: for an observed half-spectrum, a rendering and a variance grid of one shape
  \<open>(R, C)\<close>, the value of \<open>log_likelihood\<close> is minus the sum over the modes \<open>(i, j)\<close>
  of the mode's term (squared residual magnitude over twice the variance, minus
  \<open>log(2\<pi> variance)/2\<close>, over the pixel count of the padded shape), where the modes of
  column \<open>0\<close> with row \<open>i \<ge> 1\<close> count once, the modes of the columns \<open>j \<ge> 1\<close> count
  twice, and the mode \<open>(0, 0)\<close> does not count.
\<close>

theorem log_likelihood_hermitian_weighting:
  assumes obs: "rect R C observed"
    and sim: "rect R C (pipeline_render (pipeline self) True False)"
    and var: "rect R C (variance self (frequency_grid_in_angstroms (pipeline self)))"
    and C: "0 < C"
  shows "log_likelihood self observed = Inr (log_likelihood_spec self observed R C)"
proof -
  define N where "N = N_pixels self"
  define V where "V = map (map (\<lambda>v. N * v)) (variance self (frequency_grid_in_angstroms (pipeline self)))"
  define S where "S = render self False"
  define res where "res = map2 (map2 (\<lambda>s ob. s - ob)) S observed"
  define sq where "sq = map2 (map2 (\<lambda>r v. (cmod r) ^ 2 / (2 * v))) res V"
  define ll where "ll = map2 (map2 (\<lambda>sq v. (sq - ln (2 * pi * v) / 2) / N)) sq V"
  have rS: "rect R C S" unfolding S_def render_def using sim by (rule rect_map_map)
  have rV: "rect R C V" unfolding V_def using var by (rule rect_map_map)
  have rres: "rect R C res" unfolding res_def by (rule elementwise_rect(2)[OF rS obs])
  have rsq: "rect R C sq" unfolding sq_def by (rule elementwise_rect(2)[OF rres rV])
  have rll: "rect R C ll" unfolding ll_def by (rule elementwise_rect(2)[OF rsq rV])
  have code: "log_likelihood self observed
              = Inr (- 1.0 * (sum_list (map hd (drop 1 ll)) + 2 * jnp_sum (map (drop 1) ll)))"
    unfolding log_likelihood_def Let_def N_pixels_def[symmetric] N_def[symmetric]
      V_def[symmetric] S_def[symmetric]
      elementwise_rect(1)[OF rS obs] sum.case res_def[symmetric]
      elementwise_rect(1)[OF rres rV] sq_def[symmetric]
      elementwise_rect(1)[OF rsq rV] ll_def[symmetric]
    by (rule refl)
  have entry: "ll ! i ! j = per_mode_spec self observed i j" if "i < R" "j < C" for i j
  proof -
    have v: "V ! i ! j = mode_variance self i j"
      unfolding V_def mode_variance_def N_def using nth_map_map[OF var that] .
    have l: "ll ! i ! j = (sq ! i ! j - ln (2 * pi * V ! i ! j) / 2) / N"
      unfolding ll_def by (rule elementwise_rect(3)[OF rsq rV that])
    have s: "sq ! i ! j = (cmod (res ! i ! j)) ^ 2 / (2 * V ! i ! j)"
      unfolding sq_def by (rule elementwise_rect(3)[OF rres rV that])
    have r: "res ! i ! j = S ! i ! j - observed ! i ! j"
      unfolding res_def by (rule elementwise_rect(3)[OF rS obs that])
    show ?thesis
      unfolding l s r v per_mode_spec_def S_def N_def by (rule refl)
  qed
  have "sum_list (map hd (drop 1 ll)) + 2 * jnp_sum (map (drop 1) ll)
        = (\<Sum>i = 1..<R. ll ! i ! 0) + 2 * (\<Sum>i = 0..<R. \<Sum>j = 1..<C. ll ! i ! j)"
    unfolding sum_first_column[OF rll C] sum_other_columns[OF rll] by (rule refl)
  also have "\<dots> = (\<Sum>i = 0..<R. \<Sum>j = 0..<C. hermitian_weight i j * ll ! i ! j)"
    by (rule weighted_sum_split[OF C, symmetric])
  also have "\<dots> = (\<Sum>i = 0..<R. \<Sum>j = 0..<C. hermitian_weight i j * per_mode_spec self observed i j)"
    by (intro sum.cong refl) (simp add: entry)
  finally show ?thesis unfolding code log_likelihood_spec_def by simp
qed

theorem log_likelihood_hermitian_weighting_witness:
  "rect 2 2 [[1, 2], [3, 4 :: complex]]
   \<and> rect 2 2 (pipeline_render (pipeline (init_gaussian
         \<lparr> pipeline_render = (\<lambda>normalize get_real. [[1, 2], [3, 4]]),
           config_padded_shape = (2, 2),
           frequency_grid_in_angstroms = [[(0, 0), (0, 1 / 2)], [(- 1 / 2, 0), (- 1 / 2, 1 / 2)]] \<rparr>
         None None)) True False)
   \<and> (0::nat) < 2
   \<and> log_likelihood (init_gaussian
         \<lparr> pipeline_render = (\<lambda>normalize get_real. [[1, 2], [3, 4]]),
           config_padded_shape = (2, 2),
           frequency_grid_in_angstroms = [[(0, 0), (0, 1 / 2)], [(- 1 / 2, 0), (- 1 / 2, 1 / 2)]] \<rparr>
         None None) [[1, 2], [3, 4]]
       = Inr (log_likelihood_spec (init_gaussian
         \<lparr> pipeline_render = (\<lambda>normalize get_real. [[1, 2], [3, 4]]),
           config_padded_shape = (2, 2),
           frequency_grid_in_angstroms = [[(0, 0), (0, 1 / 2)], [(- 1 / 2, 0), (- 1 / 2, 1 / 2)]] \<rparr>
         None None) [[1, 2], [3, 4]] 2 2)"
  using log_likelihood_hermitian_weighting
          [of 2 2 "[[1, 2], [3, 4]]"
              "init_gaussian
                 \<lparr> pipeline_render = (\<lambda>normalize get_real. [[1, 2], [3, 4]]),
                   config_padded_shape = (2, 2),
                   frequency_grid_in_angstroms =
                     [[(0, 0), (0, 1 / 2)], [(- 1 / 2, 0), (- 1 / 2, 1 / 2)]] \<rparr>
                 None None"]
  by (simp add: rect_def init_gaussian_def Constant_def)

end
